theory Spec2Isabelle
  imports Main
begin

section \<open>Values handed to the store\<close>

text \<open>
  Task definitions, results and errors are written with \<^verbatim>\<open>json.dumps\<close> and read back
  with \<^verbatim>\<open>json.loads\<close>. A stored text is represented by the JSON value it encodes
  (floating point numbers are left out), so reading back what was written is the
  identity. Python's \<^verbatim>\<open>None\<close> is \<open>JNull\<close>.
\<close>

datatype json =
    JNull
  | JBool bool
  | JInt int
  | JStr string
  | JList "json list"
  | JObj "(string \<times> json) list"

text \<open>Python's truth value of an object, as tested by \<^verbatim>\<open>if result:\<close>.\<close>

fun truthy :: "json \<Rightarrow> bool" where
  "truthy JNull = False"
| "truthy (JBool b) = b"
| "truthy (JInt n) = (n \<noteq> 0)"
| "truthy (JStr s) = (s \<noteq> [])"
| "truthy (JList xs) = (xs \<noteq> [])"
| "truthy (JObj kvs) = (kvs \<noteq> [])"

text \<open>The same test on an \<^verbatim>\<open>Optional[str]\<close>, as in \<^verbatim>\<open>if error:\<close>.\<close>

fun truthy_str :: "string option \<Rightarrow> bool" where
  "truthy_str None = False"
| "truthy_str (Some m) = (m \<noteq> [])"

datatype error = TypeError | ValueError

section \<open>Tables\<close>

text \<open>
  A table with the columns \<^verbatim>\<open>(task_id, value)\<close> is the list of its rows in insertion
  order. The statements below are the four kinds of SQL statement the store issues.
  Foreign keys are declared in the schema, and SQLite does not enforce them unless the
  connection asks for it, which this one never does: no statement below looks at another
  table.
\<close>

type_synonym 'v table = "(string \<times> 'v) list"

definition keys :: "'v table \<Rightarrow> string set" where
  "keys t = fst ` set t"

text \<open>\<^verbatim>\<open>INSERT OR IGNORE INTO t (task_id, v) VALUES (?, ?)\<close>\<close>

definition insert_or_ignore :: "string \<Rightarrow> 'v \<Rightarrow> 'v table \<Rightarrow> 'v table" where
  "insert_or_ignore k v t = (if k \<in> keys t then t else t @ [(k, v)])"

text \<open>\<^verbatim>\<open>INSERT OR REPLACE INTO t (task_id, v) VALUES (?, ?)\<close>: the row in conflict is
  deleted, then the new row is inserted.\<close>

definition insert_or_replace :: "string \<Rightarrow> 'v \<Rightarrow> 'v table \<Rightarrow> 'v table" where
  "insert_or_replace k v t = filter (\<lambda>r. fst r \<noteq> k) t @ [(k, v)]"

text \<open>\<^verbatim>\<open>UPDATE t SET v = ? WHERE task_id = ?\<close>\<close>

definition update_where :: "string \<Rightarrow> 'v \<Rightarrow> 'v table \<Rightarrow> 'v table" where
  "update_where k v t = map (\<lambda>r. if fst r = k then (k, v) else r) t"

text \<open>\<^verbatim>\<open>DELETE FROM t WHERE task_id = ?\<close>\<close>

definition delete_where :: "string \<Rightarrow> 'v table \<Rightarrow> 'v table" where
  "delete_where k t = filter (\<lambda>r. fst r \<noteq> k) t"

text \<open>\<^verbatim>\<open>SELECT v FROM t WHERE task_id = ?\<close>, and \<^verbatim>\<open>cursor.fetchone()\<close> on its rows.\<close>

definition select_where :: "string \<Rightarrow> 'v table \<Rightarrow> 'v list" where
  "select_where k t = map snd (filter (\<lambda>r. fst r = k) t)"

fun fetchone :: "'a list \<Rightarrow> 'a option" where
  "fetchone [] = None"
| "fetchone (r # rs) = Some r"

text \<open>A dict comprehension over rows: a later row with the same key wins.\<close>

definition dict_of :: "'v table \<Rightarrow> (string \<rightharpoonup> 'v)" where
  "dict_of rows = fold (\<lambda>r m. m(fst r \<mapsto> snd r)) rows Map.empty"

section \<open>SQLiteMemory\<close>

record store =
  task_definition :: "json table"
  task_status :: "string table"
  task_result :: "json table"
  task_error :: "string table"

text \<open>The four tables right after \<^verbatim>\<open>_setup_db\<close> on a new database.\<close>

definition empty_store :: store where
  "empty_store = \<lparr>task_definition = [], task_status = [], task_result = [], task_error = []\<rparr>"

text \<open>An entry of \<^verbatim>\<open>update_task_statuses\<close>: task id, status, result, error.\<close>

type_synonym status_entry = "string \<times> string \<times> json \<times> string option"

definition store_tasks :: "store \<Rightarrow> (string \<times> json) list \<Rightarrow> store" where
  "store_tasks s tasks =
     s\<lparr>task_definition := fold (\<lambda>(task_id, task_data). insert_or_ignore task_id task_data)
                             tasks (task_definition s),
       task_status := fold (\<lambda>(task_id, _). insert_or_ignore task_id ''pending'')
                         tasks (task_status s)\<rparr>"

text \<open>The body of the \<^verbatim>\<open>for\<close> loop of \<^verbatim>\<open>update_task_statuses\<close>.\<close>

fun write_outcome :: "status_entry \<Rightarrow> store \<Rightarrow> store" where
  "write_outcome (task_id, _, result, err) s =
     (let s1 = (if truthy result
                then s\<lparr>task_result := insert_or_replace task_id result (task_result s)\<rparr>
                else s)
      in if truthy_str err
         then s1\<lparr>task_error := insert_or_replace task_id (the err) (task_error s1)\<rparr>
         else s1)"

definition update_task_statuses :: "store \<Rightarrow> status_entry list \<Rightarrow> store" where
  "update_task_statuses s statuses =
     fold write_outcome statuses
       (s\<lparr>task_status := fold (\<lambda>(task_id, status, _, _). update_where task_id status)
                           statuses (task_status s)\<rparr>)"




fun write_outcomes :: "(json \<Rightarrow> error option) \<Rightarrow> status_entry list \<Rightarrow> store \<Rightarrow> error + store" where
  "write_outcomes dumps_raises [] s = Inr s"
| "write_outcomes dumps_raises ((task_id, status, result, err) # statuses) s =
     (case (if truthy result then dumps_raises result else None) of
        Some e \<Rightarrow> Inl e
      | None \<Rightarrow>
          write_outcomes dumps_raises statuses (write_outcome (task_id, status, result, err) s))"

definition update_task_statuses_call ::
  "(json \<Rightarrow> error option) \<Rightarrow> store \<Rightarrow> status_entry list \<Rightarrow> error + store" where
  "update_task_statuses_call dumps_raises s statuses =
     write_outcomes dumps_raises statuses
       (s\<lparr>task_status := fold (\<lambda>(task_id, status, _, _). update_where task_id status)
                           statuses (task_status s)\<rparr>)"

text \<open>\<^verbatim>\<open>cursor.fetchone()[0]\<close>: subscripting \<^verbatim>\<open>None\<close> raises \<^verbatim>\<open>TypeError\<close>.\<close>

definition get_task_status :: "store \<Rightarrow> string \<Rightarrow> error + string" where
  "get_task_status s task_id =
     (case fetchone (select_where task_id (task_status s)) of
        None \<Rightarrow> Inl TypeError
      | Some status \<Rightarrow> Inr status)"

definition get_pending_tasks :: "store \<Rightarrow> string list" where
  "get_pending_tasks s = map fst (filter (\<lambda>r. snd r = ''pending'') (task_status s))"

definition get_completed_tasks :: "store \<Rightarrow> string list" where
  "get_completed_tasks s = map fst (filter (\<lambda>r. snd r = ''completed'') (task_status s))"

text \<open>The inner join of \<^verbatim>\<open>task_status\<close> with \<^verbatim>\<open>task_error\<close> on the task id.\<close>

definition get_failed_tasks :: "store \<Rightarrow> (string \<times> string) list" where
  "get_failed_tasks s =
     concat (map (\<lambda>ts. map (\<lambda>te. (fst ts, snd te))
                          (filter (\<lambda>te. fst ts = fst te \<and> snd ts = ''failed'') (task_error s)))
                 (task_status s))"

definition get_task_result :: "store \<Rightarrow> string \<Rightarrow> json option" where
  "get_task_result s task_id =
     (case fetchone (select_where task_id (task_result s)) of
        Some result \<Rightarrow> Some result
      | None \<Rightarrow> None)"

definition clear :: "store \<Rightarrow> store" where
  "clear s = s\<lparr>task_definition := [], task_status := [], task_result := [], task_error := []\<rparr>"

definition clear_task :: "string \<Rightarrow> store \<Rightarrow> store" where
  "clear_task task_id s =
     s\<lparr>task_definition := delete_where task_id (task_definition s),
       task_status := delete_where task_id (task_status s),
       task_result := delete_where task_id (task_result s),
       task_error := delete_where task_id (task_error s)\<rparr>"

definition clear_tasks :: "store \<Rightarrow> string list \<Rightarrow> store" where
  "clear_tasks s task_ids = fold clear_task task_ids s"

record dump =
  task_definitions :: "string \<rightharpoonup> json"
  task_statuses :: "string \<rightharpoonup> string"
  task_results :: "string \<rightharpoonup> json"
  task_errors :: "string \<rightharpoonup> string"

definition dump_all :: "store \<Rightarrow> dump" where
  "dump_all s =
     \<lparr>task_definitions = dict_of (task_definition s),
      task_statuses = dict_of (task_status s),
      task_results = dict_of (task_result s),
      task_errors = dict_of (task_error s)\<rparr>"

section \<open>LocalThreadedExecutor\<close>

text \<open>
  A task is an opaque callable with an id. Calling it either returns a value or raises an
  exception \<^verbatim>\<open>e\<close>, of which the executor keeps \<^verbatim>\<open>str(e)\<close>. Invocations are taken
  to finish and to leave the store alone; what they raise is an \<^verbatim>\<open>Exception\<close> (the
  loop does not catch a \<^verbatim>\<open>KeyboardInterrupt\<close> or \<^verbatim>\<open>SystemExit\<close>), and what they
  return is a value that \<^verbatim>\<open>json.dumps\<close> accepts.
\<close>

datatype outcome = Returned json | Raised string

record task =
  get_id :: string
  call :: outcome

text \<open>
  The attributes of the executor other than the store. The stop predicate is an external
  callable without arguments: it is represented by the answers it gives, the \<open>k\<close>-th call
  of a run answering \<open>f k\<close>. \<open>stopped\<close> is the attribute \<^verbatim>\<open>_stopped\<close>.
\<close>

record executor =
  tasks :: "task list"
  max_concurrency :: int
  stop_all_when :: "(nat \<Rightarrow> bool) option"
  stopped :: bool

text \<open>Decimal digits of a length, as an f-string prints it.\<close>

definition digit_char :: "nat \<Rightarrow> char" where
  "digit_char d = ''0123456789'' ! d"

fun show_nat :: "nat \<Rightarrow> string" where
  "show_nat n = (if n < 10 then [digit_char n] else show_nat (n div 10) @ [digit_char (n mod 10)])"

declare show_nat.simps [simp del]

definition status_summary :: "store \<Rightarrow> string list" where
  "status_summary mem =
     (let pending = get_pending_tasks mem;
          completed = get_completed_tasks mem;
          failed = get_failed_tasks mem
      in [''Pending tasks: '' @ show_nat (length pending),
          ''Completed tasks: '' @ show_nat (length completed),
          ''Failed tasks: '' @ show_nat (length failed)])"

text \<open>The method \<^verbatim>\<open>_execute_task\<close>, run by a worker of the pool.\<close>

definition execute_task :: "executor \<Rightarrow> task \<Rightarrow> outcome" where
  "execute_task ex t =
     (if stopped ex then Raised ''Execution was stopped by an external condition.''
      else call t)"

text \<open>
  The loop over \<^verbatim>\<open>as_completed(future_to_task)\<close>, on the tasks in the order in which
  their futures are yielded. \<open>k\<close> counts the calls of the stop predicate so far. The
  result is the store, the printed lines and the new value of \<^verbatim>\<open>_stopped\<close>. A future
  that is harvested has finished before the loop sets \<^verbatim>\<open>_stopped\<close>, so its worker read
  the value the attribute had when the run began.
\<close>

fun harvest :: "executor \<Rightarrow> task list \<Rightarrow> nat \<Rightarrow> store \<Rightarrow> string list \<Rightarrow> store \<times> string list \<times> bool" where
  "harvest ex [] k mem out = (mem, out, stopped ex)"
| "harvest ex (t # ts) k mem out =
     (let mem' = (case execute_task ex t of
                    Returned result \<Rightarrow>
                      update_task_statuses mem [(get_id t, ''completed'', result, None)]
                  | Raised e \<Rightarrow>
                      update_task_statuses mem [(get_id t, ''failed'', JNull, Some e)])
      in if (case stop_all_when ex of None \<Rightarrow> False | Some f \<Rightarrow> f k)
         then (mem', out @ [''Emergency stop condition met. Halting execution.''], True)
         else harvest ex ts (Suc k) mem' out)"

text \<open>
  What a call of \<^verbatim>\<open>run\<close> leaves behind: the store, the lines printed, the invocations
  submitted to the pool, whether the pool was created, and \<^verbatim>\<open>_stopped\<close>.
\<close>

record run_result =
  memory :: store
  stdout :: "string list"
  submitted :: "task list"
  pool_created :: bool
  stopped_after :: bool

text \<open>
  \<open>as_completed\<close> is the order in which the pool yields the submitted invocations, which
  the scheduler chooses: any rearrangement of its argument.
  \<^verbatim>\<open>ThreadPoolExecutor(max_workers=n)\<close> raises \<^verbatim>\<open>ValueError\<close> for \<open>n \<le> 0\<close>.
\<close>

definition run :: "(task list \<Rightarrow> task list) \<Rightarrow> executor \<Rightarrow> store \<Rightarrow> error + run_result" where
  "run as_completed ex mem =
     (let pending_task_ids = set (get_pending_tasks mem);
          tasks_to_run = filter (\<lambda>t. get_id t \<in> pending_task_ids) (tasks ex)
      in if tasks_to_run = []
         then Inr \<lparr>memory = mem, stdout = [''All tasks are already completed.''],
                   submitted = [], pool_created = False, stopped_after = stopped ex\<rparr>
         else if max_concurrency ex \<le> 0 then Inl ValueError
         else (case harvest ex (as_completed tasks_to_run) 0 mem [] of
                 (mem', out, st) \<Rightarrow>
                   Inr \<lparr>memory = mem', stdout = out @ status_summary mem',
                        submitted = tasks_to_run, pool_created = True, stopped_after = st\<rparr>))"

section \<open>Sequences of store operations\<close>

datatype store_op =
    StoreTasks "(string \<times> json) list"
  | UpdateTaskStatuses "status_entry list"
  | Clear
  | ClearTasks "string list"

fun apply_op :: "store_op \<Rightarrow> store \<Rightarrow> store" where
  "apply_op (StoreTasks ts) s = store_tasks s ts"
| "apply_op (UpdateTaskStatuses es) s = update_task_statuses s es"
| "apply_op Clear s = clear s"
| "apply_op (ClearTasks ids) s = clear_tasks s ids"

definition run_ops :: "store_op list \<Rightarrow> store \<Rightarrow> store" where
  "run_ops ops s = fold apply_op ops s"

section \<open>Notions used by the statements\<close>

text \<open>
  What the schema's primary keys and the store's own operations maintain: no table holds
  two rows for one task id, and a task id has a definition exactly when it has a status
  (\<open>store_tasks\<close> inserts both, \<open>clear\<close> and \<open>clear_tasks\<close> delete both).
\<close>

definition wf_store :: "store \<Rightarrow> bool" where
  "wf_store s \<longleftrightarrow>
     distinct (map fst (task_definition s)) \<and> distinct (map fst (task_status s)) \<and>
     distinct (map fst (task_result s)) \<and> distinct (map fst (task_error s)) \<and>
     keys (task_definition s) = keys (task_status s)"

text \<open>
  The effect of \<open>update_task_statuses\<close> on each table taken alone: the statuses written
  by the \<^verbatim>\<open>executemany\<close>, the results and the errors written by the loop.
\<close>

definition set_statuses :: "status_entry list \<Rightarrow> string table \<Rightarrow> string table" where
  "set_statuses es t = fold (\<lambda>(task_id, status, _, _). update_where task_id status) es t"

definition put_results :: "status_entry list \<Rightarrow> json table \<Rightarrow> json table" where
  "put_results es t =
     fold (\<lambda>(task_id, _, result, _).
             if truthy result then insert_or_replace task_id result else id) es t"

definition put_errors :: "status_entry list \<Rightarrow> string table \<Rightarrow> string table" where
  "put_errors es t =
     fold (\<lambda>(task_id, _, _, err).
             if truthy_str err then insert_or_replace task_id (the err) else id) es t"

text \<open>An operation gives a task id a result (an error) when it is an update with an entry
  for that id whose result (error) is not \<^verbatim>\<open>None\<close>.\<close>

fun op_gives_result :: "string \<Rightarrow> store_op \<Rightarrow> bool" where
  "op_gives_result i (UpdateTaskStatuses es) = list_ex (\<lambda>(j, _, r, _). j = i \<and> r \<noteq> JNull) es"
| "op_gives_result i _ = False"

fun op_gives_error :: "string \<Rightarrow> store_op \<Rightarrow> bool" where
  "op_gives_error i (UpdateTaskStatuses es) = list_ex (\<lambda>(j, _, _, e). j = i \<and> e \<noteq> None) es"
| "op_gives_error i _ = False"

text \<open>In how many of the pending, completed and failed queries a task id appears.\<close>

definition class_count :: "store \<Rightarrow> string \<Rightarrow> nat" where
  "class_count s i =
     (if i \<in> set (get_pending_tasks s) then 1 else 0) +
     (if i \<in> set (get_completed_tasks s) then 1 else 0) +
     (if i \<in> fst ` set (get_failed_tasks s) then 1 else 0)"

text \<open>Reading a decimal numeral back.\<close>

definition digit_value :: "char \<Rightarrow> nat" where
  "digit_value c = of_char c - 48"

definition read_nat :: "string \<Rightarrow> nat" where
  "read_nat ds = foldl (\<lambda>a c. 10 * a + digit_value c) 0 ds"

text \<open>
  What one entry does to the status, the result and the error of task id \<open>i\<close>, in the
  words of the specification: it writes its status for its id; a result that is given
  replaces the stored one and an omitted one leaves it; likewise the error.
\<close>

fun entry_status :: "string \<Rightarrow> status_entry \<Rightarrow> string \<Rightarrow> string" where
  "entry_status i (task_id, status, result, err) old = (if task_id = i then status else old)"

fun entry_result :: "string \<Rightarrow> status_entry \<Rightarrow> json option \<Rightarrow> json option" where
  "entry_result i (task_id, status, result, err) old =
     (if task_id = i \<and> result \<noteq> JNull then Some result else old)"

fun entry_error :: "string \<Rightarrow> status_entry \<Rightarrow> string option \<Rightarrow> string option" where
  "entry_error i (task_id, status, result, err) old =
     (if task_id = i \<and> err \<noteq> None then err else old)"

text \<open>
  Whether a task id has been given a result (an error) since it was last cleared: an
  update with such an entry sets the mark, \<open>clear\<close> and a \<open>clear_tasks\<close> that names the
  id reset it, \<open>store_tasks\<close> leaves it.
\<close>

fun result_given_step :: "string \<Rightarrow> store_op \<Rightarrow> bool \<Rightarrow> bool" where
  "result_given_step i (StoreTasks ts) b = b"
| "result_given_step i (UpdateTaskStatuses es) b = (b \<or> op_gives_result i (UpdateTaskStatuses es))"
| "result_given_step i Clear b = False"
| "result_given_step i (ClearTasks ids) b = (b \<and> i \<notin> set ids)"

fun error_given_step :: "string \<Rightarrow> store_op \<Rightarrow> bool \<Rightarrow> bool" where
  "error_given_step i (StoreTasks ts) b = b"
| "error_given_step i (UpdateTaskStatuses es) b = (b \<or> op_gives_error i (UpdateTaskStatuses es))"
| "error_given_step i Clear b = False"
| "error_given_step i (ClearTasks ids) b = (b \<and> i \<notin> set ids)"

definition result_given_since_clear :: "string \<Rightarrow> store_op list \<Rightarrow> bool" where
  "result_given_since_clear i ops = fold (result_given_step i) ops False"

definition error_given_since_clear :: "string \<Rightarrow> store_op list \<Rightarrow> bool" where
  "error_given_since_clear i ops = fold (error_given_step i) ops False"

text \<open>A store and an executor to try the statements on: \<open>t1\<close> completed, \<open>t2\<close> pending.\<close>

definition demo_store :: store where
  "demo_store = update_task_statuses
     (store_tasks empty_store [(''t1'', JObj [(''n'', JInt 1)]), (''t2'', JObj [(''n'', JInt 2)])])
     [(''t1'', ''completed'', JObj [(''ok'', JBool True)], None)]"

definition demo_task :: "string \<Rightarrow> outcome \<Rightarrow> task" where
  "demo_task i oc = \<lparr>get_id = i, call = oc\<rparr>"

definition demo_executor :: "task list \<Rightarrow> executor" where
  "demo_executor ts = \<lparr>tasks = ts, max_concurrency = 2, stop_all_when = None, stopped = False\<rparr>"

text \<open>Two sequences of operations on task \<open>t1\<close>: completed and then failed; and
  completed, cleared, inserted again and then failed.\<close>

definition exclusion_ops :: "store_op list" where
  "exclusion_ops =
     [StoreTasks [(''t1'', JObj [])],
      UpdateTaskStatuses [(''t1'', ''completed'', JObj [(''ok'', JBool True)], None)],
      UpdateTaskStatuses [(''t1'', ''failed'', JNull, Some ''boom'')]]"

definition reset_ops :: "store_op list" where
  "reset_ops =
     [StoreTasks [(''t1'', JObj [])],
      UpdateTaskStatuses [(''t1'', ''completed'', JObj [(''ok'', JBool True)], None)],
      ClearTasks [''t1''],
      StoreTasks [(''t1'', JObj [])],
      UpdateTaskStatuses [(''t1'', ''failed'', JNull, Some ''boom'')]]"

text \<open>A task completed and then failed, with a result written for an id never inserted; and a
  task marked failed by an entry that carries no error.\<close>

definition stale_result_ops :: "store_op list" where
  "stale_result_ops =
     [StoreTasks [(''t1'', JObj [])],
      UpdateTaskStatuses [(''t1'', ''completed'', JObj [(''ok'', JBool True)], None)],
      UpdateTaskStatuses [(''t1'', ''failed'', JNull, Some ''boom'')],
      UpdateTaskStatuses [(''ghost'', ''completed'', JInt 7, None)]]"

definition failed_silently_ops :: "store_op list" where
  "failed_silently_ops =
     [StoreTasks [(''t1'', JObj [])],
      UpdateTaskStatuses [(''t1'', ''failed'', JNull, None)]]"

text \<open>A store with a task marked failed by an entry without an error, and a store with two
  tasks just inserted.\<close>

definition silent_failure_store :: store where
  "silent_failure_store = update_task_statuses
     (store_tasks empty_store [(''t1'', JObj []), (''t2'', JObj [])])
     [(''t2'', ''failed'', JNull, None)]"

definition fresh_store :: store where
  "fresh_store = store_tasks empty_store [(''t1'', JObj []), (''t3'', JObj [])]"

section \<open>Tables: keys and lookups\<close>

lemma keys_conv: "k \<in> keys t \<longleftrightarrow> map_of t k \<noteq> None"
  by (simp add: keys_def map_of_eq_None_iff)

lemma fetchone_select_where: "fetchone (select_where k t) = map_of t k"
  by (induction t) (auto simp: select_where_def)

lemma fold_dict_update: "fold (\<lambda>r m. m(fst r \<mapsto> snd r)) t m = m ++ map_of (rev t)"
  by (induction t arbitrary: m) (auto simp: map_add_def fun_eq_iff split: option.splits)

lemma dict_of_rev: "dict_of t = map_of (rev t)"
  by (simp add: dict_of_def fold_dict_update)

lemma dom_dict_of: "dom (dict_of t) = keys t"
  by (simp add: dict_of_rev keys_def dom_map_of_conv_image_fst)

lemma dict_of_distinct: "distinct (map fst t) \<Longrightarrow> dict_of t = map_of t"
proof -
  assume d: "distinct (map fst t)"
  then have "distinct (map fst (rev t))" by (simp flip: rev_map)
  with d have "map_of (rev t) = map_of t" by (simp add: map_of_inject_set)
  then show ?thesis by (simp add: dict_of_rev)
qed

lemma keys_insert_or_ignore: "keys (insert_or_ignore k v t) = insert k (keys t)"
  by (auto simp: insert_or_ignore_def keys_def)

lemma keys_insert_or_replace: "keys (insert_or_replace k v t) = insert k (keys t)"
  by (auto simp: insert_or_replace_def keys_def)

lemma map_fst_update_where: "map fst (update_where k v t) = map fst t"
  by (induction t) (auto simp: update_where_def)

lemma keys_update_where: "keys (update_where k v t) = keys t"
  by (simp add: keys_def map_fst_update_where flip: set_map)

lemma keys_delete_where: "keys (delete_where k t) = keys t - {k}"
  by (auto simp: delete_where_def keys_def)

lemma distinct_insert_or_ignore:
  "distinct (map fst t) \<Longrightarrow> distinct (map fst (insert_or_ignore k v t))"
  by (auto simp: insert_or_ignore_def keys_def)

lemma distinct_insert_or_replace:
  "distinct (map fst t) \<Longrightarrow> distinct (map fst (insert_or_replace k v t))"
  by (auto simp: insert_or_replace_def distinct_map_filter)

lemma distinct_delete_where:
  "distinct (map fst t) \<Longrightarrow> distinct (map fst (delete_where k t))"
  by (auto simp: delete_where_def distinct_map_filter)

lemma map_of_insert_or_ignore:
  "map_of (insert_or_ignore k v t) i = (if i = k \<and> k \<notin> keys t then Some v else map_of t i)"
  by (auto simp: insert_or_ignore_def keys_conv map_add_def split: option.splits)

lemma map_of_filter_neq: "map_of (filter (\<lambda>r. fst r \<noteq> k) t) i = (if i = k then None else map_of t i)"
  by (induction t) auto

lemma map_of_insert_or_replace:
  "map_of (insert_or_replace k v t) i = (if i = k then Some v else map_of t i)"
  by (auto simp: insert_or_replace_def map_add_def map_of_filter_neq split: option.splits)

lemma map_of_update_where:
  "map_of (update_where k v t) i = (if i = k \<and> k \<in> keys t then Some v else map_of t i)"
  by (induction t) (auto simp: update_where_def keys_conv)

lemma map_of_delete_where:
  "map_of (delete_where k t) i = (if i = k then None else map_of t i)"
  by (simp add: delete_where_def map_of_filter_neq)

section \<open>The store operations keep the tables well formed\<close>

text \<open>
  Every operation of the store takes a well-formed store to a well-formed store, so every
  store built from a new database by the operations is well formed (\<open>wf_run_ops\<close> with
  \<open>wf_empty_store\<close>), and so is the store a run leaves behind (\<open>harvest_wf\<close>).
\<close>

subsection \<open>store_tasks\<close>

lemma store_tasks_sel [simp]:
  "task_result (store_tasks s ts) = task_result s"
  "task_error (store_tasks s ts) = task_error s"
  "task_definition (store_tasks s ts) =
     fold (\<lambda>(task_id, task_data). insert_or_ignore task_id task_data) ts (task_definition s)"
  "task_status (store_tasks s ts) =
     fold (\<lambda>(task_id, _). insert_or_ignore task_id ''pending'') ts (task_status s)"
  by (simp_all add: store_tasks_def)

lemma fold_ignore_keys:
  "keys (fold (\<lambda>(k, v). insert_or_ignore k (f k v)) ts t) = keys t \<union> fst ` set ts"
  by (induction ts arbitrary: t) (auto simp: keys_insert_or_ignore)

lemma fold_ignore_distinct:
  "distinct (map fst t) \<Longrightarrow> distinct (map fst (fold (\<lambda>(k, v). insert_or_ignore k (f k v)) ts t))"
  by (induction ts arbitrary: t) (auto simp: distinct_insert_or_ignore)

lemma fold_ignore_present:
  "i \<in> keys t \<Longrightarrow> map_of (fold (\<lambda>(k, v). insert_or_ignore k (f k v)) ts t) i = map_of t i"
  by (induction ts arbitrary: t) (auto simp: map_of_insert_or_ignore keys_insert_or_ignore)

lemma fold_ignore_absent:
  "i \<notin> fst ` set ts \<Longrightarrow> map_of (fold (\<lambda>(k, v). insert_or_ignore k (f k v)) ts t) i = map_of t i"
  by (induction ts arbitrary: t) (auto simp: map_of_insert_or_ignore)

lemma wf_store_tasks: "wf_store s \<Longrightarrow> wf_store (store_tasks s ts)"
  using fold_ignore_keys [of "\<lambda>k v. v" ts] fold_ignore_keys [of "\<lambda>k v. ''pending''" ts]
    fold_ignore_distinct [of _ "\<lambda>k v. v" ts] fold_ignore_distinct [of _ "\<lambda>k v. ''pending''" ts]
  by (simp add: wf_store_def)

subsection \<open>update_task_statuses\<close>

lemma fold_write_outcome:
  "fold write_outcome es s =
     s\<lparr>task_result := put_results es (task_result s), task_error := put_errors es (task_error s)\<rparr>"
  by (induction es arbitrary: s) (auto simp: put_results_def put_errors_def Let_def)

lemma update_task_statuses_sel [simp]:
  "task_definition (update_task_statuses s es) = task_definition s"
  "task_status (update_task_statuses s es) = set_statuses es (task_status s)"
  "task_result (update_task_statuses s es) = put_results es (task_result s)"
  "task_error (update_task_statuses s es) = put_errors es (task_error s)"
  by (simp_all add: update_task_statuses_def fold_write_outcome set_statuses_def)

lemma map_fst_set_statuses: "map fst (set_statuses es t) = map fst t"
  unfolding set_statuses_def
  by (induction es arbitrary: t) (auto simp: map_fst_update_where)

lemma keys_set_statuses: "keys (set_statuses es t) = keys t"
  by (simp add: keys_def map_fst_set_statuses flip: set_map)

lemma distinct_put_results: "distinct (map fst t) \<Longrightarrow> distinct (map fst (put_results es t))"
  unfolding put_results_def
  by (induction es arbitrary: t) (auto simp: distinct_insert_or_replace)

lemma distinct_put_errors: "distinct (map fst t) \<Longrightarrow> distinct (map fst (put_errors es t))"
  unfolding put_errors_def
  by (induction es arbitrary: t) (auto simp: distinct_insert_or_replace)

lemma wf_update_task_statuses: "wf_store s \<Longrightarrow> wf_store (update_task_statuses s es)"
  by (simp add: wf_store_def map_fst_set_statuses keys_set_statuses distinct_put_results
      distinct_put_errors)

subsection \<open>clear and clear_tasks\<close>

lemma wf_clear: "wf_store (clear s)"
  by (simp add: wf_store_def clear_def keys_def)

lemma clear_tasks_sel [simp]:
  "task_definition (clear_tasks s ids) = fold delete_where ids (task_definition s)"
  "task_status (clear_tasks s ids) = fold delete_where ids (task_status s)"
  "task_result (clear_tasks s ids) = fold delete_where ids (task_result s)"
  "task_error (clear_tasks s ids) = fold delete_where ids (task_error s)"
  unfolding clear_tasks_def
  by (induction ids arbitrary: s; simp add: clear_task_def)+

lemma keys_fold_delete: "keys (fold delete_where ids t) = keys t - set ids"
  by (induction ids arbitrary: t) (auto simp: keys_delete_where)

lemma distinct_fold_delete:
  "distinct (map fst t) \<Longrightarrow> distinct (map fst (fold delete_where ids t))"
  by (induction ids arbitrary: t) (auto simp: distinct_delete_where)

lemma map_of_fold_delete:
  "map_of (fold delete_where ids t) i = (if i \<in> set ids then None else map_of t i)"
  by (induction ids arbitrary: t) (auto simp: map_of_delete_where)

lemma wf_clear_tasks: "wf_store s \<Longrightarrow> wf_store (clear_tasks s ids)"
  by (simp add: wf_store_def keys_fold_delete distinct_fold_delete)

lemma wf_empty_store: "wf_store empty_store"
  by (simp add: wf_store_def empty_store_def keys_def)

lemma wf_apply_op: "wf_store s \<Longrightarrow> wf_store (apply_op op s)"
  by (cases op) (simp_all add: wf_store_tasks wf_update_task_statuses wf_clear wf_clear_tasks)

lemma wf_run_ops: "wf_store s \<Longrightarrow> wf_store (run_ops ops s)"
  unfolding run_ops_def
  by (induction ops arbitrary: s) (simp_all add: wf_apply_op)

section \<open>Reading the store\<close>

lemma get_task_status_map_of:
  "get_task_status s i = (case map_of (task_status s) i of None \<Rightarrow> Inl TypeError | Some st \<Rightarrow> Inr st)"
  by (simp add: get_task_status_def fetchone_select_where)

lemma get_task_result_map_of: "get_task_result s i = map_of (task_result s) i"
  by (simp add: get_task_result_def fetchone_select_where split: option.splits)

lemma dump_all_wf:
  assumes "wf_store s"
  shows "task_definitions (dump_all s) = map_of (task_definition s)"
    and "task_statuses (dump_all s) = map_of (task_status s)"
    and "task_results (dump_all s) = map_of (task_result s)"
    and "task_errors (dump_all s) = map_of (task_error s)"
  using assms by (simp_all add: dump_all_def wf_store_def dict_of_distinct)

lemma wf_demo_store: "wf_store demo_store"
  unfolding demo_store_def
  by (intro wf_update_task_statuses wf_store_tasks wf_empty_store)

text \<open>
  C9. On a store that respects its primary keys, \<open>get_task_status\<close> on an id without a
  status record fails with the \<^verbatim>\<open>TypeError\<close> of subscripting the missing row, instead
  of returning an absent marker; on an id with a status record it returns that status.
\<close>

theorem get_task_status_missing_row_fails:
  "wf_store s \<Longrightarrow>
   get_task_status s i =
     (case task_statuses (dump_all s) i of None \<Rightarrow> Inl TypeError | Some st \<Rightarrow> Inr st)"
  by (simp add: get_task_status_map_of dump_all_wf)

theorem get_task_status_missing_row_fails_witness:
  "wf_store demo_store \<and> get_task_status demo_store ''t9'' = Inl TypeError \<and>
   get_task_status demo_store ''t1'' = Inr ''completed''"
proof -
  have a: "task_statuses (dump_all demo_store) ''t9'' = None"
    by code_simp
  have b: "task_statuses (dump_all demo_store) ''t1'' = Some ''completed''"
    by code_simp
  show ?thesis
    using get_task_status_missing_row_fails [OF wf_demo_store, of "''t9''"]
      get_task_status_missing_row_fails [OF wf_demo_store, of "''t1''"] wf_demo_store
    by (simp add: a b)
qed

section \<open>Inserting twice\<close>

lemma fold_ignore_all_present:
  "fst ` set ts \<subseteq> keys t \<Longrightarrow> fold (\<lambda>(k, v). insert_or_ignore k (f k v)) ts t = t"
  by (induction ts arbitrary: t) (auto simp: insert_or_ignore_def)

lemma store_tasks_idem: "store_tasks (store_tasks s ts) ts = store_tasks s ts"
proof -
  have d: "fold (\<lambda>(k, v). insert_or_ignore k v) ts (fold (\<lambda>(k, v). insert_or_ignore k v) ts t)
         = fold (\<lambda>(k, v). insert_or_ignore k v) ts t" for t :: "json table"
    using fold_ignore_all_present [of ts _ "\<lambda>k v. v"] fold_ignore_keys [of "\<lambda>k v. v" ts t]
    by simp
  have p: "fold (\<lambda>(k, v). insert_or_ignore k ''pending'') ts
             (fold (\<lambda>(k, v). insert_or_ignore k ''pending'') ts t)
         = fold (\<lambda>(k, v). insert_or_ignore k ''pending'') ts t" for t :: "string table"
    using fold_ignore_all_present [of ts _ "\<lambda>k v. ''pending''"]
      fold_ignore_keys [of "\<lambda>k v. ''pending''" ts t]
    by simp
  show ?thesis
    by (simp add: store_tasks_def d p)
qed

text \<open>
  C4. \<open>store_tasks\<close> inserts only what is absent: on a well-formed store, for an id the
  store already holds, a further call with any batch leaves the id's definition and
  status, and all results and errors, as they were; and repeating a call changes nothing.
\<close>

theorem store_tasks_existing_id_unchanged:
  assumes "wf_store s" and "i \<in> dom (task_definitions (dump_all s))"
  shows "task_definitions (dump_all (store_tasks s ts)) i = task_definitions (dump_all s) i \<and>
         task_statuses (dump_all (store_tasks s ts)) i = task_statuses (dump_all s) i \<and>
         get_task_status (store_tasks s ts) i = get_task_status s i \<and>
         task_results (dump_all (store_tasks s ts)) = task_results (dump_all s) \<and>
         task_errors (dump_all (store_tasks s ts)) = task_errors (dump_all s) \<and>
         store_tasks (store_tasks s ts) ts = store_tasks s ts"
proof -
  have wf': "wf_store (store_tasks s ts)"
    using assms(1) by (rule wf_store_tasks)
  have kd: "i \<in> keys (task_definition s)"
    using assms by (simp add: dump_all_wf keys_conv dom_def)
  then have ks: "i \<in> keys (task_status s)"
    using assms(1) by (simp add: wf_store_def)
  have "map_of (task_definition (store_tasks s ts)) i = map_of (task_definition s) i"
    using fold_ignore_present [OF kd, of "\<lambda>k v. v" ts] by simp
  moreover have "map_of (task_status (store_tasks s ts)) i = map_of (task_status s) i"
    using fold_ignore_present [OF ks, of "\<lambda>k v. ''pending''" ts] by simp
  ultimately show ?thesis
    using assms(1) wf' by (simp add: dump_all_wf get_task_status_map_of store_tasks_idem)
qed

theorem store_tasks_existing_id_unchanged_witness:
  "wf_store demo_store \<and> ''t1'' \<in> dom (task_definitions (dump_all demo_store)) \<and>
   task_definitions (dump_all (store_tasks demo_store [(''t1'', JObj []), (''t3'', JNull)])) ''t1''
     = Some (JObj [(''n'', JInt 1)]) \<and>
   get_task_status (store_tasks demo_store [(''t1'', JObj []), (''t3'', JNull)]) ''t1''
     = Inr ''completed'' \<and>
   get_task_result (store_tasks demo_store [(''t1'', JObj []), (''t3'', JNull)]) ''t1''
     = Some (JObj [(''ok'', JBool True)])"
proof -
  have d: "''t1'' \<in> dom (task_definitions (dump_all demo_store))"
    by code_simp
  have v: "task_definitions (dump_all demo_store) ''t1'' = Some (JObj [(''n'', JInt 1)])"
    by code_simp
  have st: "get_task_status demo_store ''t1'' = Inr ''completed''"
    by code_simp
  have r: "get_task_result (store_tasks demo_store [(''t1'', JObj []), (''t3'', JNull)]) ''t1''
     = Some (JObj [(''ok'', JBool True)])"
    by code_simp
  show ?thesis
    using store_tasks_existing_id_unchanged [OF wf_demo_store d,
        of "[(''t1'', JObj []), (''t3'', JNull)]"] wf_demo_store d
    by (simp add: v st r)
qed

section \<open>A run with nothing pending\<close>

text \<open>
  C5. When no supplied task has a pending id, \<open>run\<close> submits nothing, prints that all
  tasks are already completed, returns before the pool is created and leaves the store
  as it was.
\<close>

theorem run_nothing_pending:
  "\<forall>t \<in> set (tasks ex). get_id t \<notin> set (get_pending_tasks mem) \<Longrightarrow>
   run as_completed ex mem =
     Inr \<lparr>memory = mem, stdout = [''All tasks are already completed.''], submitted = [],
          pool_created = False, stopped_after = stopped ex\<rparr>"
  by (simp add: run_def filter_empty_conv)

theorem run_nothing_pending_witness:
  "map get_id (tasks (demo_executor [demo_task ''t1'' (Raised ''boom'')])) = [''t1''] \<and>
   get_pending_tasks demo_store = [''t2''] \<and>
   run rev (demo_executor [demo_task ''t1'' (Raised ''boom'')]) demo_store =
     Inr \<lparr>memory = demo_store, stdout = [''All tasks are already completed.''], submitted = [],
          pool_created = False, stopped_after = False\<rparr>"
proof -
  have h: "\<forall>t \<in> set (tasks (demo_executor [demo_task ''t1'' (Raised ''boom'')])).
      get_id t \<notin> set (get_pending_tasks demo_store)"
    by code_simp
  have i: "map get_id (tasks (demo_executor [demo_task ''t1'' (Raised ''boom'')])) = [''t1'']"
    by code_simp
  have p: "get_pending_tasks demo_store = [''t2'']"
    by code_simp
  show ?thesis
    using run_nothing_pending [OF h, of rev] i p
    by (simp add: demo_executor_def)
qed

section \<open>Result and error of one task\<close>

lemma keys_put_results_eq:
  "keys (put_results es t) = keys t \<union> fst ` set (filter (\<lambda>(j, _, r, _). truthy r) es)"
  unfolding put_results_def
  by (induction es arbitrary: t) (auto simp: keys_insert_or_replace)

lemma keys_put_errors_eq:
  "keys (put_errors es t) = keys t \<union> fst ` set (filter (\<lambda>(j, _, _, e). truthy_str e) es)"
  unfolding put_errors_def
  by (induction es arbitrary: t) (auto simp: keys_insert_or_replace)

lemma truthy_given:
  assumes "i \<in> fst ` set (filter (\<lambda>(j, _, r, _). truthy r) es)"
  shows "list_ex (\<lambda>(j, _, r, _). j = i \<and> r \<noteq> JNull) es"
proof -
  from assms obtain st r e where m: "(i, st, r, e) \<in> set es" and t: "truthy r"
    by auto
  from t have "r \<noteq> JNull"
    by auto
  with m show ?thesis
    unfolding list_ex_iff by (intro bexI [of _ "(i, st, r, e)"]) simp_all
qed

lemma truthy_str_given:
  assumes "i \<in> fst ` set (filter (\<lambda>(j, _, _, e). truthy_str e) es)"
  shows "list_ex (\<lambda>(j, _, _, e). j = i \<and> e \<noteq> None) es"
proof -
  from assms obtain st r e where m: "(i, st, r, e) \<in> set es" and t: "truthy_str e"
    by auto
  from t have "e \<noteq> None"
    by (cases e) simp_all
  with m show ?thesis
    unfolding list_ex_iff by (intro bexI [of _ "(i, st, r, e)"]) simp_all
qed

lemma keys_put_results:
  "i \<in> keys (put_results es t) \<Longrightarrow>
   i \<in> keys t \<or> list_ex (\<lambda>(j, _, r, _). j = i \<and> r \<noteq> JNull) es"
  using truthy_given [of i es] by (auto simp: keys_put_results_eq)

lemma keys_put_errors:
  "i \<in> keys (put_errors es t) \<Longrightarrow>
   i \<in> keys t \<or> list_ex (\<lambda>(j, _, _, e). j = i \<and> e \<noteq> None) es"
  using truthy_str_given [of i es] by (auto simp: keys_put_errors_eq)

lemma result_given_step_sound:
  "i \<in> keys (task_result (apply_op op s)) \<Longrightarrow> (i \<in> keys (task_result s) \<longrightarrow> b) \<Longrightarrow>
   result_given_step i op b"
  by (cases op) (auto simp: clear_def keys_def[of "[]"] keys_fold_delete dest: keys_put_results)

lemma error_given_step_sound:
  "i \<in> keys (task_error (apply_op op s)) \<Longrightarrow> (i \<in> keys (task_error s) \<longrightarrow> b) \<Longrightarrow>
   error_given_step i op b"
  by (cases op) (auto simp: clear_def keys_def[of "[]"] keys_fold_delete dest: keys_put_errors)

lemma result_given_fold:
  "i \<in> keys (task_result (fold apply_op ops s)) \<Longrightarrow> (i \<in> keys (task_result s) \<longrightarrow> b) \<Longrightarrow>
   fold (result_given_step i) ops b"
proof (induction ops arbitrary: s b)
  case Nil
  then show ?case by simp
next
  case (Cons op ops)
  have "i \<in> keys (task_result (apply_op op s)) \<longrightarrow> result_given_step i op b"
    using Cons.prems(2) by (blast intro: result_given_step_sound)
  with Cons.IH [of "apply_op op s" "result_given_step i op b"] Cons.prems(1)
  show ?case by simp
qed

lemma error_given_fold:
  "i \<in> keys (task_error (fold apply_op ops s)) \<Longrightarrow> (i \<in> keys (task_error s) \<longrightarrow> b) \<Longrightarrow>
   fold (error_given_step i) ops b"
proof (induction ops arbitrary: s b)
  case Nil
  then show ?case by simp
next
  case (Cons op ops)
  have "i \<in> keys (task_error (apply_op op s)) \<longrightarrow> error_given_step i op b"
    using Cons.prems(2) by (blast intro: error_given_step_sound)
  with Cons.IH [of "apply_op op s" "error_given_step i op b"] Cons.prems(1)
  show ?case by simp
qed

lemma dump_all_dom:
  "dom (task_definitions (dump_all s)) = keys (task_definition s)"
  "dom (task_statuses (dump_all s)) = keys (task_status s)"
  "dom (task_results (dump_all s)) = keys (task_result s)"
  "dom (task_errors (dump_all s)) = keys (task_error s)"
  by (simp_all add: dump_all_def dom_dict_of)

text \<open>
  C1, as stated, fails: a task recorded as completed with a result and then as failed with
  an error holds both, since no operation but \<open>clear\<close> and \<open>clear_tasks\<close> removes a
  result or an error.
\<close>

theorem result_error_both_present_counterexample:
  "task_results (dump_all (run_ops exclusion_ops empty_store)) ''t1'' = Some (JObj [(''ok'', JBool True)]) \<and>
   task_errors (dump_all (run_ops exclusion_ops empty_store)) ''t1'' = Some ''boom''"
  by code_simp

text \<open>
  C1, amended. After any sequence of \<open>store_tasks\<close>, \<open>update_task_statuses\<close>,
  \<open>clear\<close> and \<open>clear_tasks\<close> on a new store, a task id holds a result and an error
  together only if, since the id was last cleared (by \<open>clear\<close>, or by a \<open>clear_tasks\<close>
  that names it), an update entry has given it a result and an update entry has given it
  an error. An id that was not given both since it was last cleared does not hold both.
\<close>

theorem result_error_exclusive_since_clear:
  assumes "\<not> (result_given_since_clear i ops \<and> error_given_since_clear i ops)"
  shows "\<not> (i \<in> dom (task_results (dump_all (run_ops ops empty_store))) \<and>
            i \<in> dom (task_errors (dump_all (run_ops ops empty_store))))"
proof
  assume both: "i \<in> dom (task_results (dump_all (run_ops ops empty_store))) \<and>
            i \<in> dom (task_errors (dump_all (run_ops ops empty_store)))"
  have e: "i \<notin> keys (task_result empty_store)" "i \<notin> keys (task_error empty_store)"
    by (simp_all add: empty_store_def keys_def)
  from both have "i \<in> keys (task_result (fold apply_op ops empty_store))"
    by (simp add: dump_all_dom run_ops_def)
  then have "result_given_since_clear i ops"
    unfolding result_given_since_clear_def
    using result_given_fold [of i ops empty_store False] e(1) by simp
  moreover from both have "i \<in> keys (task_error (fold apply_op ops empty_store))"
    by (simp add: dump_all_dom run_ops_def)
  then have "error_given_since_clear i ops"
    unfolding error_given_since_clear_def
    using error_given_fold [of i ops empty_store False] e(2) by simp
  ultimately show False
    using assms by simp
qed

theorem result_error_exclusive_since_clear_witness:
  "list_ex (op_gives_result ''t1'') reset_ops \<and>
   list_ex (op_gives_error ''t1'') reset_ops \<and>
   result_given_since_clear ''t1'' reset_ops = False \<and>
   error_given_since_clear ''t1'' reset_ops \<and>
   task_errors (dump_all (run_ops reset_ops empty_store)) ''t1'' = Some ''boom'' \<and>
   \<not> (''t1'' \<in> dom (task_results (dump_all (run_ops reset_ops empty_store))) \<and>
      ''t1'' \<in> dom (task_errors (dump_all (run_ops reset_ops empty_store))))"
proof -
  have a: "list_ex (op_gives_result ''t1'') reset_ops"
    by code_simp
  have b: "list_ex (op_gives_error ''t1'') reset_ops"
    by code_simp
  have c: "result_given_since_clear ''t1'' reset_ops = False"
    by code_simp
  have d: "error_given_since_clear ''t1'' reset_ops"
    by code_simp
  have r: "task_errors (dump_all (run_ops reset_ops empty_store)) ''t1'' = Some ''boom''"
    by code_simp
  show ?thesis
    using result_error_exclusive_since_clear [of "''t1''" reset_ops] a b c d r
    by simp
qed

section \<open>What get_task_result returns\<close>

text \<open>
  C2, as stated, fails: \<open>get_task_result\<close> reads \<^verbatim>\<open>task_result\<close> alone. It returns
  the result of a task whose status is \<open>failed\<close>, and the result written for an id that
  has neither a definition nor a status.
\<close>

theorem get_task_result_not_completed_counterexample:
  "get_task_status (run_ops stale_result_ops empty_store) ''t1'' = Inr ''failed'' \<and>
   get_task_result (run_ops stale_result_ops empty_store) ''t1'' = Some (JObj [(''ok'', JBool True)]) \<and>
   task_definitions (dump_all (run_ops stale_result_ops empty_store)) ''ghost'' = None \<and>
   get_task_status (run_ops stale_result_ops empty_store) ''ghost'' = Inl TypeError \<and>
   get_task_result (run_ops stale_result_ops empty_store) ''ghost'' = Some (JInt 7)"
  by code_simp

lemma put_results_no_result: "put_results [(j, st, JNull, e)] t = t"
  by (simp add: put_results_def)

text \<open>
  C2, amended. \<open>get_task_result\<close> returns the entry of the id in the results collection,
  as \<open>dump_all\<close> shows it, and the absent marker exactly when there is none; the id's
  status plays no part: an update that writes a status without a result leaves the answer
  as it was.
\<close>

theorem get_task_result_is_stored_result:
  assumes "wf_store s"
  shows "get_task_result s i = task_results (dump_all s) i \<and>
         get_task_result (update_task_statuses s [(j, st, JNull, e)]) i = get_task_result s i"
  using assms by (simp add: get_task_result_map_of dump_all_wf put_results_no_result)

theorem get_task_result_is_stored_result_witness:
  "wf_store (run_ops stale_result_ops empty_store) \<and>
   task_results (dump_all (run_ops stale_result_ops empty_store)) ''t1'' = Some (JObj [(''ok'', JBool True)]) \<and>
   get_task_result (run_ops stale_result_ops empty_store) ''t1'' = Some (JObj [(''ok'', JBool True)]) \<and>
   get_task_result (update_task_statuses (run_ops stale_result_ops empty_store)
      [(''t1'', ''pending'', JNull, None)]) ''t1'' = Some (JObj [(''ok'', JBool True)])"
proof -
  have w: "wf_store (run_ops stale_result_ops empty_store)"
    by (rule wf_run_ops [OF wf_empty_store])
  have r: "task_results (dump_all (run_ops stale_result_ops empty_store)) ''t1'' = Some (JObj [(''ok'', JBool True)])"
    by code_simp
  show ?thesis
    using get_task_result_is_stored_result [OF w, of "''t1''" "''t1''" "''pending''" None] w r
    by simp
qed

section \<open>The three status queries\<close>

lemma in_status_query:
  assumes "distinct (map fst t)"
  shows "i \<in> set (map fst (filter (\<lambda>r. snd r = st) t)) \<longleftrightarrow> map_of t i = Some st"
  using assms by (auto simp: image_iff)

lemma in_failed_query:
  "i \<in> fst ` set (get_failed_tasks s) \<longleftrightarrow>
   (i, ''failed'') \<in> set (task_status s) \<and> i \<in> keys (task_error s)"
  by (force simp: get_failed_tasks_def keys_def image_iff)

lemma class_count_wf:
  assumes "wf_store s"
  shows "class_count s i \<le> 1 \<and>
         (class_count s i = 1) =
           (get_task_status s i = Inr ''pending'' \<or> get_task_status s i = Inr ''completed'' \<or>
            get_task_status s i = Inr ''failed'' \<and> i \<in> dom (task_errors (dump_all s)))"
proof -
  have d: "distinct (map fst (task_status s))"
    using assms by (simp add: wf_store_def)
  have p: "i \<in> set (get_pending_tasks s) \<longleftrightarrow> map_of (task_status s) i = Some ''pending''"
    unfolding get_pending_tasks_def by (rule in_status_query [OF d])
  have c: "i \<in> set (get_completed_tasks s) \<longleftrightarrow> map_of (task_status s) i = Some ''completed''"
    unfolding get_completed_tasks_def by (rule in_status_query [OF d])
  have f: "i \<in> fst ` set (get_failed_tasks s) \<longleftrightarrow>
           map_of (task_status s) i = Some ''failed'' \<and> i \<in> keys (task_error s)"
    using d by (simp add: in_failed_query)
  have k: "dom (task_errors (dump_all s)) = keys (task_error s)"
    by (simp add: dump_all_def dom_dict_of)
  show ?thesis
    unfolding class_count_def p c f k get_task_status_map_of
    by (auto split: option.splits)
qed

text \<open>
  C8, as stated, fails: a task marked \<open>failed\<close> by an entry without an error has a
  definition and a status and appears in none of the three queries, the failed query being
  a join with the errors.
\<close>

theorem status_classes_partition_counterexample:
  "''t1'' \<in> dom (task_definitions (dump_all (run_ops failed_silently_ops empty_store))) \<and>
   get_task_status (run_ops failed_silently_ops empty_store) ''t1'' = Inr ''failed'' \<and>
   get_pending_tasks (run_ops failed_silently_ops empty_store) = [] \<and>
   get_completed_tasks (run_ops failed_silently_ops empty_store) = [] \<and>
   get_failed_tasks (run_ops failed_silently_ops empty_store) = [] \<and>
   class_count (run_ops failed_silently_ops empty_store) ''t1'' = 0"
  by code_simp

text \<open>
  C8, amended. After any sequence of store operations on a new store, a task id appears in
  at most one of the pending, completed and failed queries, and in exactly one precisely
  when its status is \<open>pending\<close> or \<open>completed\<close>, or \<open>failed\<close> with an error stored.
\<close>

theorem status_classes_at_most_one:
  "class_count (run_ops ops empty_store) i \<le> 1 \<and>
   (class_count (run_ops ops empty_store) i = 1) =
     (get_task_status (run_ops ops empty_store) i = Inr ''pending'' \<or>
      get_task_status (run_ops ops empty_store) i = Inr ''completed'' \<or>
      get_task_status (run_ops ops empty_store) i = Inr ''failed'' \<and>
      i \<in> dom (task_errors (dump_all (run_ops ops empty_store))))"
  by (rule class_count_wf [OF wf_run_ops [OF wf_empty_store]])

theorem status_classes_at_most_one_witness:
  "get_task_status (run_ops stale_result_ops empty_store) ''t1'' = Inr ''failed'' \<and>
   ''t1'' \<in> dom (task_errors (dump_all (run_ops stale_result_ops empty_store))) \<and>
   class_count (run_ops stale_result_ops empty_store) ''t1'' = 1"
proof -
  have a: "get_task_status (run_ops stale_result_ops empty_store) ''t1'' = Inr ''failed''"
    by code_simp
  have b: "''t1'' \<in> dom (task_errors (dump_all (run_ops stale_result_ops empty_store)))"
    by code_simp
  show ?thesis
    using status_classes_at_most_one [of stale_result_ops "''t1''"] a b
    by simp
qed

section \<open>What one entry of an update writes\<close>

lemma set_statuses_Cons:
  "set_statuses ((j, st, r, e) # es) t = set_statuses es (update_where j st t)"
  by (simp add: set_statuses_def)

lemma put_results_Cons:
  "put_results ((j, st, r, e) # es) t =
     put_results es (if truthy r then insert_or_replace j r t else t)"
  by (simp add: put_results_def)

lemma put_errors_Cons:
  "put_errors ((j, st, r, e) # es) t =
     put_errors es (if truthy_str e then insert_or_replace j (the e) t else t)"
  by (simp add: put_errors_def)

lemma set_statuses_other:
  "i \<notin> fst ` set es \<Longrightarrow> map_of (set_statuses es t) i = map_of t i"
proof (induction es arbitrary: t)
  case Nil
  then show ?case by (simp add: set_statuses_def)
next
  case (Cons x es)
  obtain j st r e where x: "x = (j, st, r, e)" by (cases x)
  with Cons show ?case
    by (simp add: set_statuses_Cons map_of_update_where)
qed

lemma put_results_other:
  "i \<notin> fst ` set es \<Longrightarrow> map_of (put_results es t) i = map_of t i"
proof (induction es arbitrary: t)
  case Nil
  then show ?case by (simp add: put_results_def)
next
  case (Cons x es)
  obtain j st r e where x: "x = (j, st, r, e)" by (cases x)
  with Cons show ?case
    by (simp add: put_results_Cons map_of_insert_or_replace)
qed

lemma put_errors_other:
  "i \<notin> fst ` set es \<Longrightarrow> map_of (put_errors es t) i = map_of t i"
proof (induction es arbitrary: t)
  case Nil
  then show ?case by (simp add: put_errors_def)
next
  case (Cons x es)
  obtain j st r e where x: "x = (j, st, r, e)" by (cases x)
  with Cons show ?case
    by (simp add: put_errors_Cons map_of_insert_or_replace)
qed

lemma put_results_entry:
  "distinct (map fst es) \<Longrightarrow> (i, st, r, e) \<in> set es \<Longrightarrow>
   map_of (put_results es t) i = (if truthy r then Some r else map_of t i)"
proof (induction es arbitrary: t)
  case Nil
  then show ?case by simp
next
  case (Cons x es)
  obtain j st' r' e' where x: "x = (j, st', r', e')" by (cases x)
  show ?case
  proof (cases "(i, st, r, e) = x")
    case True
    then have "i \<notin> fst ` set es" and "j = i" and "r' = r"
      using Cons.prems(1) x by auto
    then show ?thesis
      using x by (simp add: put_results_Cons put_results_other map_of_insert_or_replace)
  next
    case False
    then have m: "(i, st, r, e) \<in> set es"
      using Cons.prems(2) by simp
    have d: "distinct (map fst es)"
      using Cons.prems(1) by simp
    have "j \<noteq> i"
      using Cons.prems(1) m x by force
    then show ?thesis
      using Cons.IH [OF d m] x by (simp add: put_results_Cons map_of_insert_or_replace)
  qed
qed

lemma put_errors_entry:
  "distinct (map fst es) \<Longrightarrow> (i, st, r, e) \<in> set es \<Longrightarrow>
   map_of (put_errors es t) i = (if truthy_str e then e else map_of t i)"
proof (induction es arbitrary: t)
  case Nil
  then show ?case by simp
next
  case (Cons x es)
  obtain j st' r' e' where x: "x = (j, st', r', e')" by (cases x)
  show ?case
  proof (cases "(i, st, r, e) = x")
    case True
    then have "i \<notin> fst ` set es" and "j = i" and "e' = e"
      using Cons.prems(1) x by auto
    then show ?thesis
      using x by (cases e) (simp_all add: put_errors_Cons put_errors_other map_of_insert_or_replace)
  next
    case False
    then have m: "(i, st, r, e) \<in> set es"
      using Cons.prems(2) by simp
    have d: "distinct (map fst es)"
      using Cons.prems(1) by simp
    have "j \<noteq> i"
      using Cons.prems(1) m x by force
    then show ?thesis
      using Cons.IH [OF d m] x by (simp add: put_errors_Cons map_of_insert_or_replace)
  qed
qed


lemma write_outcomes_rejected:
  "list_ex (\<lambda>(j, st, r, e). truthy r \<and> d r \<noteq> None) es \<Longrightarrow>
   \<exists>err. write_outcomes d es s = Inl err"
  by (induction es arbitrary: s) (auto simp del: write_outcome.simps split: option.splits)


lemma update_task_statuses_call_rejected:
  "list_ex (\<lambda>(j, st, r, e). truthy r \<and> d r \<noteq> None) es \<Longrightarrow>
   \<exists>err. update_task_statuses_call d s es = Inl err"
  by (simp add: update_task_statuses_call_def write_outcomes_rejected)


lemma truthy_str_not_none: "truthy_str e \<Longrightarrow> e \<noteq> None"
  by (cases e) simp_all






lemma entry_fold_other:
  "i \<notin> fst ` set es \<Longrightarrow> fold (entry_status i) es st = st"
  "i \<notin> fst ` set es \<Longrightarrow> fold (entry_result i) es r = r"
  "i \<notin> fst ` set es \<Longrightarrow> fold (entry_error i) es e = e"
  by (induction es arbitrary: st r e) auto

lemma entry_fold_last:
  assumes "i \<notin> fst ` set post"
  shows "fold (entry_status i) (pre @ (i, st, r, e) # post) old_st = st"
    and "r \<noteq> JNull \<Longrightarrow> fold (entry_result i) (pre @ (i, st, r, e) # post) old_r = Some r"
    and "e \<noteq> None \<Longrightarrow> fold (entry_error i) (pre @ (i, st, r, e) # post) old_e = e"
  using assms by (simp_all add: entry_fold_other)




section \<open>Updating an id that was never inserted\<close>

text \<open>
  C10 describes what an update does for an id that \<open>store_tasks\<close> never inserted, and
  says that a result or error carried by the entry is stored. At an entry that carries
  the empty object as result and the empty string as error, the tests
  \<^verbatim>\<open>if result:\<close> and \<^verbatim>\<open>if error:\<close> take both for omitted: nothing is stored and
  the store is as before.
\<close>

theorem update_task_statuses_empty_result_not_stored:
  "update_task_statuses demo_store [(''ghost'', ''completed'', JObj [], Some '''')] = demo_store \<and>
   task_results (dump_all
     (update_task_statuses demo_store [(''ghost'', ''completed'', JObj [], Some '''')])) ''ghost'' = None \<and>
   task_errors (dump_all
     (update_task_statuses demo_store [(''ghost'', ''completed'', JObj [], Some '''')])) ''ghost'' = None"
  by code_simp

text \<open>
  For non-empty values that \<^verbatim>\<open>json.dumps\<close> accepts (so that the call returns, see
  \<open>update_task_statuses_call_accepted\<close>), the update of an unknown id behaves as C10
  says: no status row is created, the id is in none of the three queries, and the values
  show in the results and errors of \<open>dump_all\<close>.
\<close>

lemma update_unknown_id:
  assumes "wf_store s" and "i \<notin> dom (task_statuses (dump_all s))"
  shows "i \<notin> dom (task_statuses (dump_all (update_task_statuses s [(i, st, r, e)]))) \<and>
         i \<notin> set (get_pending_tasks (update_task_statuses s [(i, st, r, e)])) \<and>
         i \<notin> set (get_completed_tasks (update_task_statuses s [(i, st, r, e)])) \<and>
         i \<notin> fst ` set (get_failed_tasks (update_task_statuses s [(i, st, r, e)])) \<and>
         (truthy r \<longrightarrow> task_results (dump_all (update_task_statuses s [(i, st, r, e)])) i = Some r) \<and>
         (truthy_str e \<longrightarrow> task_errors (dump_all (update_task_statuses s [(i, st, r, e)])) i = e)"
proof -
  let ?s' = "update_task_statuses s [(i, st, r, e)]"
  have wf': "wf_store ?s'"
    using assms(1) by (rule wf_update_task_statuses)
  have k: "i \<notin> keys (task_status s)"
    using assms(2) by (simp add: dump_all_def dom_dict_of)
  then have k': "i \<notin> keys (task_status ?s')"
    by (simp add: keys_set_statuses)
  have q: "i \<notin> set (get_pending_tasks ?s')" "i \<notin> set (get_completed_tasks ?s')"
    using k' by (auto simp: get_pending_tasks_def get_completed_tasks_def keys_def)
  have f: "i \<notin> fst ` set (get_failed_tasks ?s')"
    using k' by (force simp: get_failed_tasks_def keys_def)
  have res: "truthy r \<longrightarrow> task_results (dump_all ?s') i = Some r"
    using put_results_entry [of "[(i, st, r, e)]" i st r e "task_result s"]
    by (simp add: dump_all_wf [OF wf'])
  have err: "truthy_str e \<longrightarrow> task_errors (dump_all ?s') i = e"
    using put_errors_entry [of "[(i, st, r, e)]" i st r e "task_error s"]
    by (simp add: dump_all_wf [OF wf'])
  from k' q f res err show ?thesis
    by (simp add: dump_all_def dom_dict_of)
qed

section \<open>Counting the rows of the status queries\<close>

lemma fst_filter_set:
  assumes "distinct (map fst t)"
  shows "fst ` set (filter P t) = {i. \<exists>v. map_of t i = Some v \<and> P (i, v)}"
proof (rule set_eqI)
  fix i
  show "i \<in> fst ` set (filter P t) \<longleftrightarrow> i \<in> {i. \<exists>v. map_of t i = Some v \<and> P (i, v)}"
  proof
    assume "i \<in> fst ` set (filter P t)"
    then obtain v where "(i, v) \<in> set t" and "P (i, v)"
      by force
    then show "i \<in> {i. \<exists>v. map_of t i = Some v \<and> P (i, v)}"
      using assms by (simp add: map_of_eq_Some_iff) blast
  next
    assume "i \<in> {i. \<exists>v. map_of t i = Some v \<and> P (i, v)}"
    then obtain v where m: "map_of t i = Some v" and p: "P (i, v)"
      by blast
    from m have "(i, v) \<in> set t"
      by (rule map_of_SomeD)
    with p have "(i, v) \<in> set (filter P t)"
      by simp
    then show "i \<in> fst ` set (filter P t)"
      by (rule image_eqI [rotated]) simp
  qed
qed

lemma length_filter_card:
  assumes "distinct (map fst t)"
  shows "length (filter P t) = card {i. \<exists>v. map_of t i = Some v \<and> P (i, v)}"
proof -
  have d: "distinct (map fst (filter P t))"
    using assms by (rule distinct_map_filter)
  have "card (fst ` set (filter P t)) = length (filter P t)"
    using distinct_card [OF d] by (simp only: set_map length_map)
  then show ?thesis
    by (simp only: fst_filter_set [OF assms])
qed

lemma length_join_row:
  "distinct (map fst te) \<Longrightarrow>
   length (filter (\<lambda>x. k = fst x \<and> b) te) = (if b \<and> k \<in> keys te then 1 else 0)"
proof (induction te)
  case Nil
  then show ?case by (simp add: keys_def)
next
  case (Cons x te)
  then have ih: "length (filter (\<lambda>x. k = fst x \<and> b) te) = (if b \<and> k \<in> keys te then 1 else 0)"
    and nx: "fst x \<notin> keys te"
    by (simp_all add: keys_def)
  have kc: "keys (x # te) = insert (fst x) (keys te)"
    by (simp add: keys_def)
  show ?case
  proof (cases "k = fst x \<and> b")
    case True
    with nx ih show ?thesis by (simp add: kc)
  next
    case False
    with ih show ?thesis by (auto simp: kc)
  qed
qed


lemma length_get_failed_tasks:
  assumes "distinct (map fst (task_error s))"
  shows "length (get_failed_tasks s) =
         length (filter (\<lambda>r. snd r = ''failed'' \<and> fst r \<in> keys (task_error s)) (task_status s))"
proof -
  have "length (concat (map (\<lambda>r. map (\<lambda>x. (fst r, snd x))
            (filter (\<lambda>x. fst r = fst x \<and> snd r = ''failed'') (task_error s))) ts)) =
        length (filter (\<lambda>r. snd r = ''failed'' \<and> fst r \<in> keys (task_error s)) ts)" for ts
  proof (induction ts)
    case Nil
    show ?case by simp
  next
    case (Cons r ts)
    have "length (filter (\<lambda>x. fst r = fst x \<and> snd r = ''failed'') (task_error s)) =
          (if snd r = ''failed'' \<and> fst r \<in> keys (task_error s) then 1 else 0)"
      by (rule length_join_row [OF assms])
    with Cons show ?case
      by simp
  qed
  then show ?thesis
    by (simp add: get_failed_tasks_def)
qed


lemma get_task_status_eq_Inr:
  "(get_task_status s i = Inr v) = (map_of (task_status s) i = Some v)"
  by (simp add: get_task_status_map_of split: option.splits)

lemma query_counts:
  assumes "wf_store s"
  shows "length (get_pending_tasks s) = card {i. get_task_status s i = Inr ''pending''}"
    and "length (get_completed_tasks s) = card {i. get_task_status s i = Inr ''completed''}"
    and "length (get_failed_tasks s) =
         card {i. get_task_status s i = Inr ''failed'' \<and> i \<in> dom (task_errors (dump_all s))}"
proof -
  have d: "distinct (map fst (task_status s))" and e: "distinct (map fst (task_error s))"
    using assms by (simp_all add: wf_store_def)
  have k: "dom (task_errors (dump_all s)) = keys (task_error s)"
    by (simp add: dump_all_def dom_dict_of)
  have "length (filter (\<lambda>r. snd r = ''pending'') (task_status s)) =
        card {i. map_of (task_status s) i = Some ''pending''}"
    using length_filter_card [OF d, of "\<lambda>r. snd r = ''pending''"] by simp
  then show "length (get_pending_tasks s) = card {i. get_task_status s i = Inr ''pending''}"
    by (simp add: get_pending_tasks_def get_task_status_eq_Inr)
  have "length (filter (\<lambda>r. snd r = ''completed'') (task_status s)) =
        card {i. map_of (task_status s) i = Some ''completed''}"
    using length_filter_card [OF d, of "\<lambda>r. snd r = ''completed''"] by simp
  then show "length (get_completed_tasks s) = card {i. get_task_status s i = Inr ''completed''}"
    by (simp add: get_completed_tasks_def get_task_status_eq_Inr)
  have "length (filter (\<lambda>r. snd r = ''failed'' \<and> fst r \<in> keys (task_error s)) (task_status s)) =
        card {i. map_of (task_status s) i = Some ''failed'' \<and> i \<in> keys (task_error s)}"
    using length_filter_card [OF d, of "\<lambda>r. snd r = ''failed'' \<and> fst r \<in> keys (task_error s)"]
    by simp
  then show "length (get_failed_tasks s) =
         card {i. get_task_status s i = Inr ''failed'' \<and> i \<in> dom (task_errors (dump_all s))}"
    by (simp add: length_get_failed_tasks [OF e] get_task_status_eq_Inr k)
qed

section \<open>Decimal numerals\<close>

lemma digit_value_digit_char: "d < 10 \<Longrightarrow> digit_value (digit_char d) = d"
proof -
  assume "d < 10"
  then have "d \<in> {0, 1, 2, 3, 4, 5, 6, 7, 8, 9}" by auto
  then show ?thesis
    by (auto simp: digit_value_def digit_char_def)
qed

lemma read_nat_snoc: "read_nat (ds @ [c]) = 10 * read_nat ds + digit_value c"
  by (simp add: read_nat_def)

lemma read_nat_show_nat: "read_nat (show_nat n) = n"
proof (induction n rule: show_nat.induct)
  case (1 n)
  show ?case
  proof (cases "n < 10")
    case True
    then show ?thesis
      by (simp add: show_nat.simps [of n] read_nat_def digit_value_digit_char)
  next
    case False
    then have "read_nat (show_nat n) = 10 * (n div 10) + n mod 10"
      using 1 by (simp add: show_nat.simps [of n] read_nat_snoc digit_value_digit_char)
    then show ?thesis by simp
  qed
qed

section \<open>The harvesting loop and the summary\<close>

lemma harvest_wf:
  "wf_store mem \<Longrightarrow> wf_store (fst (harvest ex ts k mem out))"
  by (induction ts arbitrary: k mem out)
    (auto simp: Let_def wf_update_task_statuses split: outcome.splits)

lemma harvest_out:
  "fst (snd (harvest ex ts k mem out)) = out \<or>
   fst (snd (harvest ex ts k mem out)) = out @ [''Emergency stop condition met. Halting execution.'']"
  by (induction ts arbitrary: k mem) (auto simp: Let_def)

text \<open>
  C6, as stated, fails on the failed line: the count is the length of \<open>get_failed_tasks\<close>,
  a join with the errors, and a record with status \<open>failed\<close> and no stored error is not
  counted. Here \<open>t2\<close> is failed and the summary says \<open>Failed tasks: 0\<close>.
\<close>

theorem status_summary_failed_count_counterexample:
  "(case run rev (demo_executor [demo_task ''t1'' (Returned (JObj [(''ok'', JBool True)]))])
           silent_failure_store of
      Inl err \<Rightarrow> False
    | Inr r \<Rightarrow>
        get_task_status (memory r) ''t2'' = Inr ''failed'' \<and>
        stdout r = [''Pending tasks: 0'', ''Completed tasks: 1'', ''Failed tasks: 0''])"
  by code_simp

text \<open>
  C6, amended. When \<open>run\<close> gets as far as the pool, what it prints ends with exactly
  three lines read from the store as the run leaves it, after at most the line of the
  emergency stop: the number of ids with status \<open>pending\<close>, the number with status
  \<open>completed\<close>, and the number with status \<open>failed\<close> that have a stored error, each as
  \<open>Label: integer\<close>. By \<open>read_nat_show_nat\<close> the digits printed denote that number.
\<close>

theorem run_status_summary_counts:
  assumes "wf_store mem" and "run as_completed ex mem = Inr r" and "pool_created r"
  shows "wf_store (memory r) \<and>
         (\<exists>pre. (pre = [] \<or> pre = [''Emergency stop condition met. Halting execution.'']) \<and>
            stdout r = pre @
              [''Pending tasks: '' @
                 show_nat (card {i. get_task_status (memory r) i = Inr ''pending''}),
               ''Completed tasks: '' @
                 show_nat (card {i. get_task_status (memory r) i = Inr ''completed''}),
               ''Failed tasks: '' @
                 show_nat (card {i. get_task_status (memory r) i = Inr ''failed'' \<and>
                                    i \<in> dom (task_errors (dump_all (memory r)))})])"
proof -
  define todo where "todo = filter (\<lambda>t. get_id t \<in> set (get_pending_tasks mem)) (tasks ex)"
  define h where "h = harvest ex (as_completed todo) 0 mem []"
  have r: "r = \<lparr>memory = fst h, stdout = fst (snd h) @ status_summary (fst h),
                submitted = todo, pool_created = True, stopped_after = snd (snd h)\<rparr>"
    using assms(2,3)
    by (auto simp: run_def Let_def todo_def h_def split: if_splits prod.splits)
  have w: "wf_store (fst h)"
    unfolding h_def using assms(1) by (rule harvest_wf)
  have o: "fst (snd h) = [] \<or> fst (snd h) = [''Emergency stop condition met. Halting execution.'']"
    unfolding h_def using harvest_out [of ex "as_completed todo" 0 mem "[]"] by simp
  have s: "status_summary (fst h) =
             [''Pending tasks: '' @
                 show_nat (card {i. get_task_status (fst h) i = Inr ''pending''}),
               ''Completed tasks: '' @
                 show_nat (card {i. get_task_status (fst h) i = Inr ''completed''}),
               ''Failed tasks: '' @
                 show_nat (card {i. get_task_status (fst h) i = Inr ''failed'' \<and>
                                    i \<in> dom (task_errors (dump_all (fst h)))})]"
    by (simp only: status_summary_def Let_def query_counts [OF w])
  have m: "memory r = fst h" and so: "stdout r = fst (snd h) @ status_summary (fst h)"
    by (simp_all add: r)
  show ?thesis
    unfolding m so s using w o by blast
qed

theorem run_status_summary_counts_witness:
  "wf_store demo_store \<and>
   run rev (demo_executor [demo_task ''t2'' (Raised ''boom'')]) demo_store =
     Inr (projr (run rev (demo_executor [demo_task ''t2'' (Raised ''boom'')]) demo_store)) \<and>
   pool_created (projr (run rev (demo_executor [demo_task ''t2'' (Raised ''boom'')]) demo_store)) \<and>
   stdout (projr (run rev (demo_executor [demo_task ''t2'' (Raised ''boom'')]) demo_store)) =
     [''Pending tasks: 0'', ''Completed tasks: 1'', ''Failed tasks: 1''] \<and>
   wf_store (memory (projr (run rev (demo_executor [demo_task ''t2'' (Raised ''boom'')]) demo_store)))"
proof -
  have a: "run rev (demo_executor [demo_task ''t2'' (Raised ''boom'')]) demo_store =
     Inr (projr (run rev (demo_executor [demo_task ''t2'' (Raised ''boom'')]) demo_store))"
    by code_simp
  have b: "pool_created (projr (run rev (demo_executor [demo_task ''t2'' (Raised ''boom'')]) demo_store))"
    by code_simp
  have c: "stdout (projr (run rev (demo_executor [demo_task ''t2'' (Raised ''boom'')]) demo_store)) =
     [''Pending tasks: 0'', ''Completed tasks: 1'', ''Failed tasks: 1'']"
    by code_simp
  show ?thesis
    using run_status_summary_counts [OF wf_demo_store a b] wf_demo_store a b c
    by simp
qed

section \<open>A task that raises\<close>

text \<open>
  C7 says that a task raising with message \<open>m\<close> is recorded as failed with error \<open>m\<close>.
  At the empty message (\<^verbatim>\<open>raise Exception()\<close>, a bare \<^verbatim>\<open>assert\<close>) the run writes the
  status \<open>failed\<close> and no error, since \<^verbatim>\<open>if error:\<close> takes the empty string for an
  omitted error: the task has no entry in the errors, is missing from
  \<open>get_failed_tasks\<close> and is not counted by the summary. The other task is recorded as
  usual.
\<close>

theorem run_empty_fault_message_not_recorded:
  "(case run rev (demo_executor [demo_task ''t1'' (Returned (JObj [(''ok'', JBool True)])),
                                demo_task ''t3'' (Raised [])]) fresh_store of
      Inl err \<Rightarrow> False
    | Inr r \<Rightarrow>
        get_task_status (memory r) ''t3'' = Inr ''failed'' \<and>
        task_errors (dump_all (memory r)) ''t3'' = None \<and>
        get_failed_tasks (memory r) = [] \<and>
        get_task_status (memory r) ''t1'' = Inr ''completed'' \<and>
        stdout r = [''Pending tasks: 0'', ''Completed tasks: 1'', ''Failed tasks: 0''])"
  by code_simp

text \<open>
  With a non-empty message the write the run makes for a raising task does what C7 says:
  the status becomes \<open>failed\<close>, the error is the message, the result is not touched, and
  no other id changes.
\<close>

lemma fault_recorded:
  assumes "wf_store mem" and "get_task_status mem i = Inr old" and "m \<noteq> []"
  shows "get_task_status (update_task_statuses mem [(i, ''failed'', JNull, Some m)]) i = Inr ''failed'' \<and>
         task_errors (dump_all (update_task_statuses mem [(i, ''failed'', JNull, Some m)])) i = Some m \<and>
         get_task_result (update_task_statuses mem [(i, ''failed'', JNull, Some m)]) i =
           get_task_result mem i \<and>
         (\<forall>j. j \<noteq> i \<longrightarrow>
            get_task_status (update_task_statuses mem [(i, ''failed'', JNull, Some m)]) j =
              get_task_status mem j \<and>
            get_task_result (update_task_statuses mem [(i, ''failed'', JNull, Some m)]) j =
              get_task_result mem j \<and>
            task_errors (dump_all (update_task_statuses mem [(i, ''failed'', JNull, Some m)])) j =
              task_errors (dump_all mem) j)"
proof -
  let ?mem' = "update_task_statuses mem [(i, ''failed'', JNull, Some m)]"
  have wf': "wf_store ?mem'"
    using assms(1) by (rule wf_update_task_statuses)
  have k: "i \<in> keys (task_status mem)"
    using assms(2) by (simp add: get_task_status_map_of keys_conv split: option.splits)
  have st: "map_of (set_statuses [(i, ''failed'', JNull, Some m)] (task_status mem)) j =
            (if j = i then Some ''failed'' else map_of (task_status mem) j)" for j
    using k by (simp add: set_statuses_def map_of_update_where)
  have re: "put_results [(i, ''failed'', JNull, Some m)] (task_result mem) = task_result mem"
    by (simp add: put_results_def)
  have er: "map_of (put_errors [(i, ''failed'', JNull, Some m)] (task_error mem)) j =
            (if j = i then Some m else map_of (task_error mem) j)" for j
    using assms(3) by (simp add: put_errors_def map_of_insert_or_replace)
  show ?thesis
    by (simp add: get_task_status_map_of get_task_result_map_of dump_all_wf [OF wf']
        dump_all_wf [OF assms(1)] st re er)
qed

end
